theory Spec2Isabelle
  imports Complex_Main "HOL-Library.Word"
begin

unbundle bit_operations_syntax

section \<open>The library context of OBDPHAWD (obdphawd.h, obdphawd.c)\<close>

subsection \<open>Data\<close>

text \<open>
  A C \<open>int\<close> is a 32-bit word read in two's complement by \<open>sint\<close>; unary minus wraps
  (so the negation of \<open>INT_MIN\<close> is \<open>INT_MIN\<close> again, the value the usual targets
  compute where ISO C leaves the overflow undefined).
\<close>

type_synonym c_int = "32 word"

text \<open>\<open>OBDPHAWD_VERSION_STRING\<close> of obdphawd.h.\<close>

definition OBDPHAWD_VERSION_STRING :: string where
  "OBDPHAWD_VERSION_STRING = ''0.1.0''"

text \<open>The enum \<open>obdphawd_error_t\<close> and the integer each enumerator is assigned.\<close>

datatype obdphawd_error_t =
    OBDPHAWD_SUCCESS
  | OBDPHAWD_ERROR_INVALID_PARAM
  | OBDPHAWD_ERROR_MEMORY
  | OBDPHAWD_ERROR_CONNECTION
  | OBDPHAWD_ERROR_TIMEOUT
  | OBDPHAWD_ERROR_PROTOCOL
  | OBDPHAWD_ERROR_NOT_IMPLEMENTED
  | OBDPHAWD_ERROR_BLUETOOTH

fun error_value :: "obdphawd_error_t \<Rightarrow> c_int" where
  "error_value OBDPHAWD_SUCCESS = 0"
| "error_value OBDPHAWD_ERROR_INVALID_PARAM = - 1"
| "error_value OBDPHAWD_ERROR_MEMORY = - 2"
| "error_value OBDPHAWD_ERROR_CONNECTION = - 3"
| "error_value OBDPHAWD_ERROR_TIMEOUT = - 4"
| "error_value OBDPHAWD_ERROR_PROTOCOL = - 5"
| "error_value OBDPHAWD_ERROR_NOT_IMPLEMENTED = - 6"
| "error_value OBDPHAWD_ERROR_BLUETOOTH = - 7"

text \<open>The enumerators in the order of their declaration.\<close>

definition error_enumerators :: "obdphawd_error_t list" where
  "error_enumerators =
     [OBDPHAWD_SUCCESS, OBDPHAWD_ERROR_INVALID_PARAM, OBDPHAWD_ERROR_MEMORY,
      OBDPHAWD_ERROR_CONNECTION, OBDPHAWD_ERROR_TIMEOUT, OBDPHAWD_ERROR_PROTOCOL,
      OBDPHAWD_ERROR_NOT_IMPLEMENTED, OBDPHAWD_ERROR_BLUETOOTH]"

text \<open>
  \<open>struct obdphawd_context\<close>: the log level and the mutex. Of the mutex only its
  life cycle is kept: zeroed by \<open>memset\<close>, initialised by \<open>pthread_mutex_init\<close>.
\<close>

datatype mutex_t = Mutex_Zeroed | Mutex_Initialized

record obdphawd_context =
  log_level :: c_int
  mutex :: mutex_t

text \<open>
  The program state: the file-scope variables \<open>g_log_level\<close> and \<open>error_strings\<close>
  (an array of pointers, itself not \<open>const\<close>), the heap of the contexts that are
  allocated and not yet freed, and what has been printed to standard output.
  A context pointer is \<open>None\<close> for \<open>NULL\<close> and \<open>Some a\<close> for the address \<open>a\<close>.
\<close>

type_synonym addr = nat

record prog_state =
  g_log_level :: c_int
  error_strings :: "string list"
  heap :: "addr \<rightharpoonup> obdphawd_context"
  stdout :: "string list"

text \<open>The initialisers of the two file-scope variables.\<close>

definition error_strings_init :: "string list" where
  "error_strings_init =
     [''Success'', ''Invalid parameter'', ''Memory allocation failed'',
      ''Connection error'', ''Operation timeout'', ''Protocol error'',
      ''Not implemented'', ''Bluetooth error'']"

definition initial_state :: prog_state where
  "initial_state =
     \<lparr>g_log_level = 2, error_strings = error_strings_init, heap = Map.empty, stdout = []\<rparr>"

text \<open>
  \<open>sizeof(error_strings) / sizeof(error_strings[0])\<close>: fixed at compile time by the
  eight initialisers.
\<close>

definition error_strings_count :: int where
  "error_strings_count = 8"

subsection \<open>Operations\<close>

text \<open>
  What C leaves undefined and the model reports: freeing through a pointer that is not
  the address of a live context, and reading \<open>error_strings\<close> past its end.
\<close>

datatype fault = Invalid_Pointer | Index_Out_Of_Bounds

text \<open>
  What the C library leaves to its environment in \<open>obdphawd_init\<close>: the pointer
  \<open>malloc\<close> returns and the return code of \<open>pthread_mutex_init\<close>.
\<close>

record init_env =
  malloc_result :: "addr option"
  mutex_init_rc :: c_int

text \<open>
  \<open>obdphawd_init\<close>, with the address \<open>malloc\<close> returns taken as the environment
  gives it.
\<close>

definition obdphawd_init :: "init_env \<Rightarrow> prog_state \<Rightarrow> addr option \<times> prog_state" where
  "obdphawd_init env s =
     (case malloc_result env of
        None \<Rightarrow> (None, s)
      | Some a \<Rightarrow>
          (let ctx0 = \<lparr>log_level = 0, mutex = Mutex_Zeroed\<rparr>;
               ctx1 = ctx0\<lparr>log_level := g_log_level s\<rparr>
           in if mutex_init_rc env \<noteq> 0 then (None, s)
              else (Some a,
                    s\<lparr>heap := (heap s)(a \<mapsto> ctx1\<lparr>mutex := Mutex_Initialized\<rparr>),
                      stdout := stdout s @
                        [''OBDPHAWD v'' @ OBDPHAWD_VERSION_STRING @ '' initialized'' @ [CHR 0x0A]]\<rparr>)))"

text \<open>
  \<open>obdphawd_cleanup\<close>: \<open>NULL\<close> returns at once; a live context has its mutex
  destroyed and its memory freed, and the message is printed.
\<close>

definition obdphawd_cleanup :: "addr option \<Rightarrow> prog_state \<Rightarrow> fault + prog_state" where
  "obdphawd_cleanup ctx s =
     (case ctx of
        None \<Rightarrow> Inr s
      | Some a \<Rightarrow>
          (case heap s a of
             None \<Rightarrow> Inl Invalid_Pointer
           | Some c \<Rightarrow>
               Inr (s\<lparr>heap := (heap s)(a := None),
                      stdout := stdout s @ [''OBDPHAWD cleanup completed'' @ [CHR 0x0A]]\<rparr>)))"

definition obdphawd_version :: "prog_state \<Rightarrow> string" where
  "obdphawd_version s = OBDPHAWD_VERSION_STRING"

definition obdphawd_error_string :: "prog_state \<Rightarrow> c_int \<Rightarrow> fault + string" where
  "obdphawd_error_string s error =
     (let index = - error
      in if 0 \<le> sint index \<and> sint index < error_strings_count
         then (if nat (sint index) < length (error_strings s)
               then Inr (error_strings s ! nat (sint index))
               else Inl Index_Out_Of_Bounds)
         else Inr ''Unknown error'')"

definition obdphawd_set_log_level :: "c_int \<Rightarrow> prog_state \<Rightarrow> prog_state" where
  "obdphawd_set_log_level level s = s\<lparr>g_log_level := level\<rparr>"

text \<open>
  \<open>obdphawd_log\<close>; \<open>text\<close> stands for what \<open>vprintf\<close> makes of the format and its
  arguments.
\<close>

definition level_names :: "string list" where
  "level_names = ['''', ''ERROR'', ''WARN'', ''INFO'', ''DEBUG'']"

definition obdphawd_log :: "c_int \<Rightarrow> string \<Rightarrow> prog_state \<Rightarrow> prog_state" where
  "obdphawd_log level text s =
     (if sint (g_log_level s) < sint level then s
      else
        (let level_name =
               (if 1 \<le> sint level \<and> sint level \<le> 4 then level_names ! nat (sint level)
                else ''UNKNOWN'')
         in s\<lparr>stdout := stdout s @ [''[OBDPHAWD '' @ level_name @ ''] '', text, [CHR 0x0A]]\<rparr>))"

subsection \<open>Programs over the public interface\<close>

text \<open>
  A client of the library is a sequence of calls; each call returns a value and the next
  state, or faults.
\<close>

datatype api_call =
    Call_init init_env
  | Call_cleanup "addr option"
  | Call_version
  | Call_error_string c_int
  | Call_set_log_level c_int
  | Call_log c_int string

datatype retval = Ret_void | Ret_ctx "addr option" | Ret_str string

fun call :: "api_call \<Rightarrow> prog_state \<Rightarrow> fault + (retval \<times> prog_state)" where
  "call (Call_init env) s = (case obdphawd_init env s of (p, s') \<Rightarrow> Inr (Ret_ctx p, s'))"
| "call (Call_cleanup p) s =
     (case obdphawd_cleanup p s of Inl f \<Rightarrow> Inl f | Inr s' \<Rightarrow> Inr (Ret_void, s'))"
| "call Call_version s = Inr (Ret_str (obdphawd_version s), s)"
| "call (Call_error_string e) s =
     (case obdphawd_error_string s e of Inl f \<Rightarrow> Inl f | Inr str \<Rightarrow> Inr (Ret_str str, s))"
| "call (Call_set_log_level l) s = Inr (Ret_void, obdphawd_set_log_level l s)"
| "call (Call_log l t) s = Inr (Ret_void, obdphawd_log l t s)"

fun run :: "api_call list \<Rightarrow> prog_state \<Rightarrow> fault + prog_state" where
  "run [] s = Inr s"
| "run (c # cs) s = (case call c s of Inl f \<Rightarrow> Inl f | Inr (r, s') \<Rightarrow> run cs s')"

text \<open>
  The states a client can bring the library to are the \<open>s\<close> with
  \<open>run cs initial_state = Inr s\<close> for some sequence \<open>cs\<close> of calls.
\<close>

fun is_set_log_level :: "api_call \<Rightarrow> bool" where
  "is_set_log_level (Call_set_log_level l) = True"
| "is_set_log_level c = False"

section \<open>The BLE device record (bluetooth_le.h)\<close>

text \<open>
  \<open>obdphawd_ble_device_t\<close>. The two character arrays hold NUL-terminated strings: the
  model keeps the characters before the terminator, and a string fits a field of \<open>n\<close>
  bytes when its characters and the terminator do. \<open>BLE_ADDRESS_SIZE\<close> is the size of
  the \<open>address\<close> array.
\<close>

record obdphawd_ble_device_t =
  address :: string
  name :: string
  rssi :: "8 word"
  connectable :: bool
  appearance :: "16 word"

definition BLE_ADDRESS_SIZE :: nat where
  "BLE_ADDRESS_SIZE = 18"

definition fits_field :: "nat \<Rightarrow> string \<Rightarrow> bool" where
  "fits_field n str = (length str + 1 \<le> n)"

text \<open>
  bluetooth_le.h only declares \<open>obdphawd_ble_scan\<close>; the scanner that fills the record
  is missing, and what follows of it is taken from the specification.
\<close>

text \<open>Modelled from the spec: the digits of the canonical form are uppercase hexadecimal.\<close>

definition is_upper_hex :: "char \<Rightarrow> bool" where
  "is_upper_hex c = (c \<in> set ''0123456789ABCDEF'')"

text \<open>
  Modelled from the spec: \<open>n\<close> groups of two uppercase hexadecimal digits, separated
  by colons (the scanner's address format, missing from the sources).
\<close>

fun mac_groups :: "nat \<Rightarrow> string \<Rightarrow> bool" where
  "mac_groups 0 str = False"
| "mac_groups (Suc 0) str =
     (case str of [h, l] \<Rightarrow> is_upper_hex h \<and> is_upper_hex l | _ \<Rightarrow> False)"
| "mac_groups (Suc n) str =
     (case str of
        h # l # sep # rest \<Rightarrow>
          is_upper_hex h \<and> is_upper_hex l \<and> sep = CHR '':'' \<and> mac_groups n rest
      | _ \<Rightarrow> False)"

text \<open>
  Modelled from the spec: the canonical form \<open>XX:XX:XX:XX:XX:XX\<close> of a MAC address,
  six such groups (the scanner's address format, missing from the sources).
\<close>

definition is_canonical_mac :: "string \<Rightarrow> bool" where
  "is_canonical_mac str = mac_groups 6 str"

text \<open>
  Modelled from the spec: canonicalisation is case-insensitive on its input; a lowercase
  letter becomes its uppercase letter (part of the missing scanner).
\<close>

definition to_upper :: "char \<Rightarrow> char" where
  "to_upper c =
     (if (97::nat) \<le> of_char c \<and> of_char c \<le> (122::nat)
      then char_of (of_char c - (32::nat)) else c)"

text \<open>
  Modelled from the spec: the canonicalisation of a MAC address (part of the missing
  scanner): the input in uppercase, if that is in canonical form.
\<close>

definition mac_canonicalize :: "string \<Rightarrow> string option" where
  "mac_canonicalize str =
     (let u = map to_upper str in if is_canonical_mac u then Some u else None)"

text \<open>
  Modelled from the spec: the record the missing scanner \<open>obdphawd_ble_scan\<close> makes of
  an advertisement, with the address canonicalised; an advertisement whose address has no
  canonical form makes no record.
\<close>

definition ble_device_of_advertisement ::
    "string \<Rightarrow> string \<Rightarrow> 8 word \<Rightarrow> bool \<Rightarrow> 16 word \<Rightarrow> obdphawd_ble_device_t option" where
  "ble_device_of_advertisement mac nm rs conn app =
     (case mac_canonicalize mac of
        None \<Rightarrow> None
      | Some a \<Rightarrow>
          Some \<lparr>address = a, name = nm, rssi = rs, connectable = conn, appearance = app\<rparr>)"

section \<open>The OBD-II codec\<close>

text \<open>
  obdphawd.h includes obd2_protocol.h; the header and its implementation are missing. The
  codec and the ISO-TP layer below are taken from the specification.
\<close>

type_synonym byte = "8 word"

text \<open>Modelled from the spec: the units of the numeric values of the missing codec.\<close>

datatype unit_t = RPM | Celsius

text \<open>
  Modelled from the spec: the decoded value of the missing codec, a tagged variant:
  numeric with unit (an exact rational), enumerated, bitfield, text, or raw bytes with
  their length.
\<close>

datatype decoded_value =
    Numeric rat unit_t
  | Enumerated nat
  | Bitfield "byte list"
  | Text string
  | Raw_Bytes "byte list" nat

text \<open>
  Modelled from the spec: the Protocol failures of the missing codec: a negative response
  carrying its NRC (when the frame is long enough to have one), or an unexpected service
  byte.
\<close>

datatype protocol_failure = Negative_Response "byte option" | Unexpected_Service_Byte

text \<open>
  Modelled from the spec: the error kinds of the missing codec: Protocol, and Decode for
  a PID decoder that received too few bytes.
\<close>

datatype error_kind = Protocol protocol_failure | Decode_Too_Few_Bytes

type_synonym pid_decoder = "byte \<Rightarrow> byte \<Rightarrow> byte list \<Rightarrow> error_kind + decoded_value"

text \<open>
  Modelled from the spec: the J1979 formula table of the missing codec, with the formulas
  the specification gives: engine RPM \<open>(256 A + B) / 4\<close> for service 0x01, PID 0x0C;
  coolant temperature \<open>A - 40\<close> for service 0x01, PID 0x05. An unknown PID yields the
  raw bytes and their length.
\<close>

definition pid_decode :: pid_decoder where
  "pid_decode service pid data =
     (if service = 0x01 \<and> pid = 0x0C then
        (case data of
           a # b # _ \<Rightarrow> Inr (Numeric ((256 * of_nat (unat a) + of_nat (unat b)) / 4) RPM)
         | _ \<Rightarrow> Inl Decode_Too_Few_Bytes)
      else if service = 0x01 \<and> pid = 0x05 then
        (case data of
           a # _ \<Rightarrow> Inr (Numeric (of_nat (unat a) - 40) Celsius)
         | _ \<Rightarrow> Inl Decode_Too_Few_Bytes)
      else Inr (Raw_Bytes data (length data)))"

text \<open>Modelled from the spec: a negative response of the missing codec has first byte 0x7F.\<close>

definition is_negative_response :: "byte list \<Rightarrow> bool" where
  "is_negative_response fr = (case fr of [] \<Rightarrow> False | b # _ \<Rightarrow> b = 0x7F)"

text \<open>
  Modelled from the spec: the NRC of a negative response of the missing codec is its
  byte 2, counted from 0 (as in 7F 01 12 with NRC 0x12), when the frame has one.
\<close>

definition nrc_of :: "byte list \<Rightarrow> byte option" where
  "nrc_of fr = (if 2 < length fr then Some (fr ! 2) else None)"

text \<open>
  Modelled from the spec: a response of the missing codec matches the request
  \<open>{service, pid}\<close> when it starts with \<open>service OR 0x40\<close> and the PID echo.
\<close>

definition response_matches :: "byte \<Rightarrow> byte \<Rightarrow> byte list \<Rightarrow> bool" where
  "response_matches service pid fr =
     (case fr of s # p # _ \<Rightarrow> s = (service OR 0x40) \<and> p = pid | _ \<Rightarrow> False)"

text \<open>
  Modelled from the spec: the decode path of the missing codec for a response to the
  request \<open>{service, pid}\<close>, with the PID decoder \<open>dec\<close>. A negative response is
  surfaced as a Protocol failure with its NRC before anything else is looked at;
  otherwise a matching response has the bytes after the echo decoded by \<open>dec\<close>.
\<close>

definition decode_with :: "pid_decoder \<Rightarrow> byte \<Rightarrow> byte \<Rightarrow> byte list \<Rightarrow> error_kind + decoded_value" where
  "decode_with dec service pid fr =
     (if is_negative_response fr then Inl (Protocol (Negative_Response (nrc_of fr)))
      else if response_matches service pid fr then dec service pid (drop 2 fr)
      else Inl (Protocol Unexpected_Service_Byte))"

text \<open>Modelled from the spec: \<open>decode\<close> of the missing codec, with the J1979 table.\<close>

definition decode :: "byte \<Rightarrow> byte \<Rightarrow> byte list \<Rightarrow> error_kind + decoded_value" where
  "decode = decode_with pid_decode"

section \<open>ISO-TP (ISO 15765-2) segmentation and reassembly\<close>

text \<open>
  The ISO-TP layer is for classical 8-byte frames with normal addressing. A frame is its
  bytes: the PCI byte first, whose high nibble is the frame type (0 SF, 1 FF, 2 CF, 3 FC).
\<close>

type_synonym frame = "byte list"

text \<open>
  Modelled from the spec: the failures of the missing ISO-TP layer: a sequence error, a
  frame too short for its type or of an unknown type, a message too long to send.
\<close>

datatype isotp_error = IsoTpSequenceError | IsoTpMalformedFrame | IsoTpMessageTooLong

text \<open>Modelled from the spec: the high nibble of the PCI byte (missing ISO-TP layer).\<close>

definition pci_type :: "byte \<Rightarrow> byte" where
  "pci_type pci = drop_bit 4 pci"

text \<open>Modelled from the spec: the low nibble of the PCI byte (missing ISO-TP layer).\<close>

definition pci_low :: "byte \<Rightarrow> byte" where
  "pci_low pci = pci AND 0x0F"

text \<open>
  Modelled from the spec: the SF of the missing transmitter: the length in the low nibble
  of the PCI byte, then the message.
\<close>

definition single_frame :: "byte list \<Rightarrow> frame" where
  "single_frame msg = of_nat (length msg) # msg"

text \<open>
  Modelled from the spec: the FF of the missing transmitter: the 12-bit length in the low
  nibble of the PCI byte and in byte 1, then the first 6 bytes of the message.
\<close>

definition first_frame :: "byte list \<Rightarrow> frame" where
  "first_frame msg =
     (let len = (of_nat (length msg) :: 16 word)
      in (0x10 OR ucast (drop_bit 8 len)) # ucast len # take 6 msg)"

text \<open>
  Modelled from the spec: the CFs of the missing transmitter, of up to 7 bytes each,
  numbered from \<open>sn\<close> on and wrapping from 15 to 0.
\<close>

fun consecutive_frames :: "nat \<Rightarrow> byte list \<Rightarrow> frame list" where
  "consecutive_frames sn [] = []"
| "consecutive_frames sn (b # bs) =
     ((0x20 OR of_nat sn) # take 7 (b # bs))
       # consecutive_frames ((sn + 1) mod 16) (drop 7 (b # bs))"

text \<open>
  Modelled from the spec: the missing transmitter. A message of at most 7 bytes is one
  SF; a longer one, up to 4095 bytes, is a FF, then CFs numbered from 1. Flow control
  (block size, separation time) paces the CFs and does not change them.
\<close>

definition isotp_transmit :: "byte list \<Rightarrow> isotp_error + frame list" where
  "isotp_transmit msg =
     (if length msg \<le> 7 then Inr [single_frame msg]
      else if length msg \<le> 4095 then Inr (first_frame msg # consecutive_frames 1 (drop 6 msg))
      else Inl IsoTpMessageTooLong)"

text \<open>
  Modelled from the spec: the reassembly context of the missing reassembler: expected
  total length, bytes received, next sequence number.
\<close>

record reassembly_context =
  expected_length :: nat
  received :: "byte list"
  next_seq :: nat

text \<open>Modelled from the spec: the inbound states of the missing reassembler.\<close>

datatype rx_state = Idle | Receiving reassembly_context

text \<open>
  Modelled from the spec: what the missing reassembler reports on a frame: a completed
  message, a flow-control frame to send, a flow-control frame handed to the outbound
  side, nothing yet, or an error.
\<close>

datatype rx_event =
    Rx_Message "byte list"
  | Rx_Send_FC frame
  | Rx_To_Outbound frame
  | Rx_Continue
  | Rx_Error isotp_error

text \<open>
  Modelled from the spec: the inbound state machine of the missing reassembler, with the
  configured block size \<open>bs\<close>. SF: the message is \<open>data[0..len]\<close>, back to Idle. FF:
  the length is \<open>((pci_low AND 0x0F) << 8) OR byte1\<close>, the first bytes are stored, a FC
  with flow status 0, \<open>bs\<close> and STmin 0 is to be sent, and the state is Receiving with
  expected sequence number 1. CF: rejected with IsoTpSequenceError if not Receiving or
  on a sequence mismatch; otherwise the payload is appended and, if the total is reached,
  the message is complete and the state Idle. FC: handed to the outbound side. Every
  error resets the context (the state is Idle again).
\<close>

definition isotp_receive :: "byte \<Rightarrow> rx_state \<Rightarrow> frame \<Rightarrow> rx_state \<times> rx_event" where
  "isotp_receive bs st fr =
     (case fr of
        [] \<Rightarrow> (Idle, Rx_Error IsoTpMalformedFrame)
      | pci # data \<Rightarrow>
          if pci_type pci = 0 then
            (let len = unat (pci_low pci)
             in if len \<le> length data then (Idle, Rx_Message (take len data))
                else (Idle, Rx_Error IsoTpMalformedFrame))
          else if pci_type pci = 1 then
            (case data of
               [] \<Rightarrow> (Idle, Rx_Error IsoTpMalformedFrame)
             | byte1 # payload \<Rightarrow>
                 (let len = unat (push_bit 8 (ucast (pci_low pci) :: 16 word) OR ucast byte1)
                  in (Receiving \<lparr>expected_length = len, received = payload, next_seq = 1\<rparr>,
                      Rx_Send_FC [0x30, bs, 0x00])))
          else if pci_type pci = 2 then
            (case st of
               Idle \<Rightarrow> (Idle, Rx_Error IsoTpSequenceError)
             | Receiving ctx \<Rightarrow>
                 if unat (pci_low pci) \<noteq> next_seq ctx then (Idle, Rx_Error IsoTpSequenceError)
                 else
                   (let buf = received ctx @ data
                    in if expected_length ctx \<le> length buf
                       then (Idle, Rx_Message (take (expected_length ctx) buf))
                       else (Receiving (ctx\<lparr>received := buf,
                                             next_seq := (next_seq ctx + 1) mod 16\<rparr>),
                             Rx_Continue)))
          else if pci_type pci = 3 then (st, Rx_To_Outbound fr)
          else (Idle, Rx_Error IsoTpMalformedFrame))"

text \<open>
  Modelled from the spec: feeding a sequence of frames to the missing reassembler: the
  final state and the events in order.
\<close>

fun isotp_feed :: "byte \<Rightarrow> rx_state \<Rightarrow> frame list \<Rightarrow> rx_state \<times> rx_event list" where
  "isotp_feed bs st [] = (st, [])"
| "isotp_feed bs st (fr # frs) =
     (case isotp_receive bs st fr of
        (st', ev) \<Rightarrow> (case isotp_feed bs st' frs of (st'', evs) \<Rightarrow> (st'', ev # evs)))"

text \<open>The completed messages and the errors among the events, in order.\<close>

fun messages_of :: "rx_event list \<Rightarrow> byte list list" where
  "messages_of [] = []"
| "messages_of (Rx_Message m # evs) = m # messages_of evs"
| "messages_of (ev # evs) = messages_of evs"

fun errors_of :: "rx_event list \<Rightarrow> isotp_error list" where
  "errors_of [] = []"
| "errors_of (Rx_Error e # evs) = e # errors_of evs"
| "errors_of (ev # evs) = errors_of evs"

text \<open>The frame type and the sequence number a frame carries in its PCI byte.\<close>

definition is_first_frame :: "frame \<Rightarrow> bool" where
  "is_first_frame fr = (case fr of [] \<Rightarrow> False | pci # _ \<Rightarrow> pci_type pci = 1)"

definition is_consecutive_frame :: "frame \<Rightarrow> bool" where
  "is_consecutive_frame fr = (case fr of [] \<Rightarrow> False | pci # _ \<Rightarrow> pci_type pci = 2)"

definition frame_seq :: "frame \<Rightarrow> nat" where
  "frame_seq fr = (case fr of [] \<Rightarrow> 0 | pci # _ \<Rightarrow> unat (pci_low pci))"

section \<open>Properties of the library context\<close>

subsection \<open>What the calls leave alone\<close>

lemma call_error_strings:
  "call c s = Inr (r, s') \<Longrightarrow> error_strings s' = error_strings s"
  by (cases c)
     (auto simp: obdphawd_init_def obdphawd_cleanup_def obdphawd_set_log_level_def
        obdphawd_log_def Let_def split: option.splits if_splits sum.splits)

lemma run_error_strings:
  "run cs s = Inr s' \<Longrightarrow> error_strings s' = error_strings s"
proof (induction cs arbitrary: s)
  case Nil
  then show ?case by simp
next
  case (Cons c cs)
  then show ?case
    by (auto split: sum.splits dest: call_error_strings)
qed

lemma run_initial_error_strings:
  "run cs initial_state = Inr s \<Longrightarrow> error_strings s = error_strings_init"
  by (drule run_error_strings) (simp add: initial_state_def)

lemma call_keeps_log_level:
  "\<not> is_set_log_level c \<Longrightarrow> call c s = Inr (r, s') \<Longrightarrow> g_log_level s' = g_log_level s"
  by (cases c)
     (auto simp: obdphawd_init_def obdphawd_cleanup_def obdphawd_log_def Let_def
        split: option.splits if_splits sum.splits)

lemma run_keeps_log_level:
  "\<forall>c\<in>set cs. \<not> is_set_log_level c \<Longrightarrow> run cs s = Inr s' \<Longrightarrow> g_log_level s' = g_log_level s"
proof (induction cs arbitrary: s)
  case Nil
  then show ?case by simp
next
  case (Cons c cs)
  from Cons.prems(2) obtain r t where step: "call c s = Inr (r, t)" and rest: "run cs t = Inr s'"
    by (auto split: sum.splits)
  have "g_log_level t = g_log_level s"
    using Cons.prems(1) step by (auto dest: call_keeps_log_level)
  moreover have "g_log_level s' = g_log_level t"
    using Cons.IH [OF _ rest] Cons.prems(1) by simp
  ultimately show ?case by simp
qed

lemma init_log_level:
  "obdphawd_init env s = (Some a, s') \<Longrightarrow> map_option log_level (heap s' a) = Some (g_log_level s)"
  by (auto simp: obdphawd_init_def Let_def split: option.splits if_splits)

subsection \<open>The index computed by \<open>obdphawd_error_string\<close>\<close>

lemma sint_neg_c_int:
  fixes e :: c_int
  shows "sint (- e) = (if sint e = - 2147483648 then - 2147483648 else - sint e)"
proof (cases "sint e = - 2147483648")
  case True
  have "sint e = sint (- 2147483648 :: c_int)"
    using True by simp
  then have "e = - 2147483648"
    by (simp only: word_eq_iff_signed [symmetric])
  then show ?thesis by simp
next
  case False
  have lo: "- 2147483648 \<le> sint e" using sint_ge [of e] by simp
  have hi: "sint e < 2147483648" using sint_lt [of e] by simp
  have "signed_take_bit 31 (- sint e) = - sint e"
    using False lo hi by (intro signed_take_bit_int_eq_self) auto
  then show ?thesis
    using False by (simp add: sint_word_minus)
qed

lemma index_range:
  fixes e :: c_int
  shows "0 \<le> sint (- e) \<and> sint (- e) < 8 \<longleftrightarrow> - 7 \<le> sint e \<and> sint e \<le> 0"
  by (auto simp: sint_neg_c_int)

lemma length_error_strings_init: "length error_strings_init = 8"
  by (simp add: error_strings_init_def)

lemma error_string_of_table:
  assumes "error_strings s = error_strings_init"
  shows "obdphawd_error_string s e =
         Inr (if - 7 \<le> sint e \<and> sint e \<le> 0 then error_strings_init ! nat (- sint e)
              else ''Unknown error'')"
proof (cases "- 7 \<le> sint e \<and> sint e \<le> 0")
  case True
  then have "sint (- e) = - sint e"
    by (simp add: sint_neg_c_int)
  moreover have "nat (- sint e) < 8"
    using True by arith
  ultimately show ?thesis
    using True assms
    by (simp add: obdphawd_error_string_def Let_def error_strings_count_def
        length_error_strings_init)
next
  case False
  then have "\<not> (0 \<le> sint (- e) \<and> sint (- e) < 8)"
    by (simp add: index_range)
  with False show ?thesis
    by (auto simp: obdphawd_error_string_def Let_def error_strings_count_def)
qed

subsection \<open>The error strings\<close>

text \<open>
  Claim C1. In every state a client can reach, \<open>obdphawd_error_string\<close> returns for the
  value of each enumerator of \<open>obdphawd_error_t\<close> its description: Success, Invalid
  parameter, Memory allocation failed, Connection error, Operation timeout, Protocol
  error, Not implemented, Bluetooth error. The enumerators, in the order of their
  declaration, have the values 0, -1, ..., -7, and there are no others.
\<close>

theorem error_string_table:
  assumes "run cs initial_state = Inr s"
  shows "obdphawd_error_string s (error_value OBDPHAWD_SUCCESS) = Inr ''Success''
       \<and> obdphawd_error_string s (error_value OBDPHAWD_ERROR_INVALID_PARAM) = Inr ''Invalid parameter''
       \<and> obdphawd_error_string s (error_value OBDPHAWD_ERROR_MEMORY) = Inr ''Memory allocation failed''
       \<and> obdphawd_error_string s (error_value OBDPHAWD_ERROR_CONNECTION) = Inr ''Connection error''
       \<and> obdphawd_error_string s (error_value OBDPHAWD_ERROR_TIMEOUT) = Inr ''Operation timeout''
       \<and> obdphawd_error_string s (error_value OBDPHAWD_ERROR_PROTOCOL) = Inr ''Protocol error''
       \<and> obdphawd_error_string s (error_value OBDPHAWD_ERROR_NOT_IMPLEMENTED) = Inr ''Not implemented''
       \<and> obdphawd_error_string s (error_value OBDPHAWD_ERROR_BLUETOOTH) = Inr ''Bluetooth error''
       \<and> map (\<lambda>e. sint (error_value e)) error_enumerators = [0, - 1, - 2, - 3, - 4, - 5, - 6, - 7]
       \<and> set error_enumerators = UNIV"
proof -
  have t: "error_strings s = error_strings_init"
    using assms by (rule run_initial_error_strings)
  have u: "set error_enumerators = UNIV"
  proof -
    have "x \<in> set error_enumerators" for x
      by (cases x) (simp_all add: error_enumerators_def)
    then show ?thesis by auto
  qed
  show ?thesis
    using u by (simp add: error_string_of_table [OF t] error_strings_init_def error_enumerators_def)
qed

theorem error_string_table_witness:
  "run [Call_log 1 ''x'', Call_cleanup None] initial_state =
     Inr (initial_state\<lparr>stdout := [''[OBDPHAWD ERROR] '', ''x'', [CHR 0x0A]]\<rparr>)
   \<and> obdphawd_error_string (initial_state\<lparr>stdout := [''[OBDPHAWD ERROR] '', ''x'', [CHR 0x0A]]\<rparr>)
        (error_value OBDPHAWD_ERROR_TIMEOUT) = Inr ''Operation timeout''"
proof -
  have r: "run [Call_log 1 ''x'', Call_cleanup None] initial_state =
     Inr (initial_state\<lparr>stdout := [''[OBDPHAWD ERROR] '', ''x'', [CHR 0x0A]]\<rparr>)"
    by (simp add: obdphawd_log_def obdphawd_cleanup_def initial_state_def level_names_def)
  show ?thesis
    using r error_string_table [OF r] by simp
qed

text \<open>
  Claim C3. In every state a client can reach, \<open>obdphawd_error_string\<close> returns a string
  for every 32-bit argument \<open>e\<close>: the table entry at \<open>-e\<close> when \<open>-7 \<le> e \<le> 0\<close>, and
  Unknown error for every other value, \<open>INT_MIN\<close> included. The table has 8 entries and
  the index stays below 8 whenever the table is read.
\<close>

theorem error_string_total:
  assumes "run cs initial_state = Inr s"
  shows "obdphawd_error_string s e =
           Inr (if - 7 \<le> sint e \<and> sint e \<le> 0 then error_strings_init ! nat (- sint e)
                else ''Unknown error'')
         \<and> length (error_strings s) = 8
         \<and> (0 \<le> sint (- e) \<and> sint (- e) < error_strings_count
              \<longrightarrow> nat (sint (- e)) < length (error_strings s))"
proof -
  have t: "error_strings s = error_strings_init"
    using assms by (rule run_initial_error_strings)
  have "nat (sint (- e)) < 8" if "sint (- e) < 8"
    using that by arith
  then show ?thesis
    using t by (simp add: error_string_of_table length_error_strings_init error_strings_count_def)
qed

theorem error_string_total_witness:
  "run [Call_set_log_level 4, Call_error_string (- 3)] initial_state =
     Inr (initial_state\<lparr>g_log_level := 4\<rparr>)
   \<and> obdphawd_error_string (initial_state\<lparr>g_log_level := 4\<rparr>) (- 2147483648) = Inr ''Unknown error''
   \<and> obdphawd_error_string (initial_state\<lparr>g_log_level := 4\<rparr>) 1 = Inr ''Unknown error''
   \<and> obdphawd_error_string (initial_state\<lparr>g_log_level := 4\<rparr>) (- 8) = Inr ''Unknown error''
   \<and> obdphawd_error_string (initial_state\<lparr>g_log_level := 4\<rparr>) (- 7) = Inr ''Bluetooth error''"
proof -
  have r: "run [Call_set_log_level 4, Call_error_string (- 3)] initial_state =
     Inr (initial_state\<lparr>g_log_level := 4\<rparr>)"
    by (simp add: obdphawd_set_log_level_def obdphawd_error_string_def initial_state_def
        error_strings_init_def error_strings_count_def)
  show ?thesis
    using r error_string_total [OF r, of "- 2147483648"] error_string_total [OF r, of 1]
      error_string_total [OF r, of "- 8"] error_string_total [OF r, of "- 7"]
    by (simp add: error_strings_init_def)
qed

subsection \<open>The log level\<close>

text \<open>
  Claim C2. \<open>obdphawd_set_log_level L\<close> sets the global log level to \<open>L\<close> and changes
  nothing else: the error-string table, the heap (so the \<open>log_level\<close> of every context
  created before) and the output are as they were. After any further calls that do not
  set the level again, a context that \<open>obdphawd_init\<close> creates has \<open>log_level = L\<close>.
\<close>

theorem set_log_level_frame:
  "g_log_level (obdphawd_set_log_level L s) = L
   \<and> error_strings (obdphawd_set_log_level L s) = error_strings s
   \<and> heap (obdphawd_set_log_level L s) = heap s
   \<and> stdout (obdphawd_set_log_level L s) = stdout s
   \<and> (\<forall>cs s' env a s''.
        (\<forall>c\<in>set cs. \<not> is_set_log_level c)
        \<and> run cs (obdphawd_set_log_level L s) = Inr s'
        \<and> obdphawd_init env s' = (Some a, s'')
        \<longrightarrow> map_option log_level (heap s'' a) = Some L)"
proof -
  have "map_option log_level (heap s'' a) = Some L"
    if "\<forall>c\<in>set cs. \<not> is_set_log_level c"
      and "run cs (obdphawd_set_log_level L s) = Inr s'"
      and "obdphawd_init env s' = (Some a, s'')"
    for cs s' env a s''
  proof -
    have "g_log_level s' = L"
      using run_keeps_log_level [OF that(1) that(2)] by (simp add: obdphawd_set_log_level_def)
    then show ?thesis
      using init_log_level [OF that(3)] by simp
  qed
  then show ?thesis
    by (simp add: obdphawd_set_log_level_def) blast
qed

theorem set_log_level_frame_witness:
  "\<not> is_set_log_level (Call_log 1 ''x'') \<and> \<not> is_set_log_level Call_version
   \<and> run [Call_log 1 ''x'', Call_version] (obdphawd_set_log_level 4 initial_state) =
       Inr (initial_state\<lparr>g_log_level := 4, stdout := [''[OBDPHAWD ERROR] '', ''x'', [CHR 0x0A]]\<rparr>)
   \<and> fst (obdphawd_init \<lparr>malloc_result = Some 1, mutex_init_rc = 0\<rparr>
        (initial_state\<lparr>g_log_level := 4, stdout := [''[OBDPHAWD ERROR] '', ''x'', [CHR 0x0A]]\<rparr>)) = Some 1
   \<and> map_option log_level
        (heap (snd (obdphawd_init \<lparr>malloc_result = Some 1, mutex_init_rc = 0\<rparr>
           (initial_state\<lparr>g_log_level := 4, stdout := [''[OBDPHAWD ERROR] '', ''x'', [CHR 0x0A]]\<rparr>))) 1)
       = Some 4"
proof -
  let ?cs = "[Call_log 1 ''x'', Call_version]"
  let ?s' = "initial_state\<lparr>g_log_level := 4, stdout := [''[OBDPHAWD ERROR] '', ''x'', [CHR 0x0A]]\<rparr>"
  let ?env = "\<lparr>malloc_result = Some 1, mutex_init_rc = 0\<rparr>"
  have h1: "\<forall>c\<in>set ?cs. \<not> is_set_log_level c"
    by simp
  have h2: "run ?cs (obdphawd_set_log_level 4 initial_state) = Inr ?s'"
    by (simp add: obdphawd_set_log_level_def obdphawd_log_def initial_state_def level_names_def
        obdphawd_version_def)
  have h3: "obdphawd_init ?env ?s' = (Some 1, snd (obdphawd_init ?env ?s'))"
    by (simp add: obdphawd_init_def Let_def)
  have h4: "fst (obdphawd_init ?env ?s') = Some 1"
    by (simp add: obdphawd_init_def Let_def)
  have h5: "map_option log_level (heap (snd (obdphawd_init ?env ?s')) 1) = Some 4"
    using set_log_level_frame [of 4 initial_state] h1 h2 h3 by blast
  show ?thesis
    using h2 h4 h5 by simp
qed

subsection \<open>Cleanup and version\<close>

text \<open>
  Claim C9. \<open>obdphawd_cleanup\<close> with a \<open>NULL\<close> context returns without a fault and
  leaves the whole program state as it was: nothing is freed, no mutex is touched, nothing
  is printed.
\<close>

theorem cleanup_null_noop:
  "obdphawd_cleanup None s = Inr s \<and> call (Call_cleanup None) s = Inr (Ret_void, s)"
  by (simp add: obdphawd_cleanup_def)

text \<open>
  Claim C10. \<open>obdphawd_version\<close> returns the string 0.1.0, the value of
  \<open>OBDPHAWD_VERSION_STRING\<close>, in every program state, and the call leaves the state as
  it was.
\<close>

theorem version_constant:
  "obdphawd_version s = ''0.1.0''
   \<and> obdphawd_version s = OBDPHAWD_VERSION_STRING
   \<and> call Call_version s = Inr (Ret_str ''0.1.0'', s)"
  by (simp add: obdphawd_version_def OBDPHAWD_VERSION_STRING_def)

section \<open>Properties of the BLE device record\<close>

lemma mac_groups_length: "mac_groups n str \<Longrightarrow> length str = 3 * n - 1"
proof (induction n str rule: mac_groups.induct)
  case (1 str)
  then show ?case by simp
next
  case (2 str)
  then show ?case by (auto split: list.splits)
next
  case (3 n str)
  then show ?case by (auto split: list.splits)
qed

lemma mac_groups_chars:
  "mac_groups n str \<Longrightarrow> c \<in> set str \<Longrightarrow> is_upper_hex c \<or> c = CHR '':''"
proof (induction n str rule: mac_groups.induct)
  case (1 str)
  then show ?case by simp
next
  case (2 str)
  then show ?case by (auto split: list.splits)
next
  case (3 n str)
  then show ?case by (auto split: list.splits)
qed

text \<open>
  Claim C8. A string in the canonical form \<open>XX:XX:XX:XX:XX:XX\<close> has exactly 17
  characters, each an uppercase hexadecimal digit or a colon, so with its terminator it
  fits the 18-byte \<open>address\<close> field; and every record the scanner makes of an
  advertisement holds its address in that form.
\<close>

theorem ble_address_canonical:
  "(is_canonical_mac a \<longrightarrow>
      length a = 17 \<and> fits_field BLE_ADDRESS_SIZE a
      \<and> list_all (\<lambda>c. is_upper_hex c \<or> c = CHR '':'') a)
   \<and> (ble_device_of_advertisement mac nm rs conn app = Some d \<longrightarrow>
        is_canonical_mac (address d) \<and> fits_field BLE_ADDRESS_SIZE (address d))"
proof -
  have canon: "length a = 17 \<and> fits_field BLE_ADDRESS_SIZE a
               \<and> list_all (\<lambda>c. is_upper_hex c \<or> c = CHR '':'') a"
    if "is_canonical_mac a" for a
  proof -
    have "mac_groups 6 a"
      using that by (simp add: is_canonical_mac_def)
    then have "length a = 17" and "\<forall>c\<in>set a. is_upper_hex c \<or> c = CHR '':''"
      using mac_groups_length [of 6 a] mac_groups_chars [of 6 a] by auto
    then show ?thesis
      by (simp add: fits_field_def BLE_ADDRESS_SIZE_def list_all_iff)
  qed
  have "is_canonical_mac (address d)"
    if "ble_device_of_advertisement mac nm rs conn app = Some d"
    using that
    by (auto simp: ble_device_of_advertisement_def mac_canonicalize_def Let_def
        split: option.splits if_splits)
  then show ?thesis
    using canon by blast
qed

theorem ble_address_canonical_witness:
  "ble_device_of_advertisement ''aa:bb:0c:dD:ee:ff'' ''OBDII'' (- 60) True 0 =
     Some \<lparr>address = ''AA:BB:0C:DD:EE:FF'', name = ''OBDII'', rssi = - 60,
           connectable = True, appearance = 0\<rparr>
   \<and> is_canonical_mac ''AA:BB:0C:DD:EE:FF''
   \<and> length ''AA:BB:0C:DD:EE:FF'' = 17
   \<and> fits_field BLE_ADDRESS_SIZE ''AA:BB:0C:DD:EE:FF''"
proof -
  have made: "ble_device_of_advertisement ''aa:bb:0c:dD:ee:ff'' ''OBDII'' (- 60) True 0 =
     Some \<lparr>address = ''AA:BB:0C:DD:EE:FF'', name = ''OBDII'', rssi = - 60,
           connectable = True, appearance = 0\<rparr>"
    by code_simp
  have canon: "is_canonical_mac ''AA:BB:0C:DD:EE:FF''"
    using ble_address_canonical [of "''AA:BB:0C:DD:EE:FF''" "''aa:bb:0c:dD:ee:ff''" "''OBDII''"
        "- 60" True 0
        "\<lparr>address = ''AA:BB:0C:DD:EE:FF'', name = ''OBDII'', rssi = - 60,
          connectable = True, appearance = 0\<rparr>"] made
    by simp
  show ?thesis
    using made canon ble_address_canonical [of "''AA:BB:0C:DD:EE:FF''"]
    by simp
qed

section \<open>Properties of the codec\<close>

text \<open>
  Claim C5. Decoding the response bytes 41 0C 1A F8 to the request with service 0x01 and
  PID 0x0C yields the numeric value 1726 with unit RPM, which is
  \<open>(256 * 0x1A + 0xF8) / 4\<close>.
\<close>

theorem rpm_scenario:
  "decode 0x01 0x0C [0x41, 0x0C, 0x1A, 0xF8] = Inr (Numeric 1726 RPM)
   \<and> pid_decode 0x01 0x0C [0x1A, 0xF8] = Inr (Numeric ((256 * 26 + 248) / 4) RPM)"
  by (simp add: decode_def decode_with_def is_negative_response_def response_matches_def
      pid_decode_def)

text \<open>
  Claim C6. A frame whose first byte is 0x7F is surfaced as a Protocol failure, a
  negative response carrying the NRC of its byte 2 (when the frame has one); the result
  is the same whatever the PID decoder is, so no decoder is applied to the frame.
\<close>

theorem negative_response_not_decoded:
  assumes "is_negative_response fr"
  shows "decode_with dec service pid fr = Inl (Protocol (Negative_Response (nrc_of fr)))
       \<and> decode_with dec service pid fr = decode_with dec' service pid fr
       \<and> (2 < length fr \<longrightarrow> nrc_of fr = Some (fr ! 2))"
  using assms by (simp add: decode_with_def nrc_of_def)

theorem negative_response_not_decoded_witness:
  "is_negative_response [0x7F, 0x01, 0x12]
   \<and> decode 0x01 0xFF [0x7F, 0x01, 0x12] = Inl (Protocol (Negative_Response (Some 0x12)))"
proof -
  have h: "is_negative_response [0x7F, 0x01, 0x12]"
    by (simp add: is_negative_response_def)
  show ?thesis
    using h negative_response_not_decoded [OF h, of pid_decode "0x01" "0xFF" pid_decode]
    by (simp add: decode_def nrc_of_def)
qed

section \<open>Properties of ISO-TP\<close>

subsection \<open>Reading the PCI byte\<close>

lemma unat_low_nibble: "unat (pci_low b) = unat b mod 16"
proof -
  have "pci_low b = take_bit 4 b"
    by (simp add: pci_low_def take_bit_eq_mask mask_eq_exp_minus_1)
  then show ?thesis
    by (simp add: unsigned_take_bit_eq take_bit_eq_mod unat_mod)
qed

lemma unat_pci_type: "unat (pci_type b) = unat b div 16"
  by (simp add: pci_type_def unat_drop_bit_eq drop_bit_eq_div unat_div)

lemma nat_less_16_cases:
  assumes "(n::nat) < 16"
  shows "n \<in> {0, 1, 2, 3, 4, 5, 6, 7, 8, 9, 10, 11, 12, 13, 14, 15}"
  using assms by simp arith

lemma cf_pci_unat:
  assumes "sn < 16"
  shows "unat (0x20 OR of_nat sn :: byte) = 32 + sn"
  using nat_less_16_cases [OF assms] by auto

lemma ff_pci_unat:
  assumes "k < 16"
  shows "unat (0x10 OR of_nat k :: byte) = 16 + k"
  using nat_less_16_cases [OF assms] by auto

lemma ff_length_decode:
  fixes h l :: byte
  shows "unat (push_bit 8 (ucast h :: 16 word) OR ucast l) = unat h * 256 + unat l"
proof -
  have bl: "0 \<le> uint l" "uint l < 256" and bh: "0 \<le> uint h" "uint h < 256"
    using uint_lt2p [of l] uint_lt2p [of h] by simp_all
  have l: "uint (ucast l :: 16 word) = take_bit 8 (uint l)"
    using bl by (simp add: unsigned_ucast_eq take_bit_eq_mod)
  have "uint (push_bit 8 (ucast h :: 16 word)) = take_bit 16 (push_bit 8 (uint h))"
    using bh by (simp add: unsigned_push_bit_eq unsigned_ucast_eq take_bit_eq_mod)
  also have "\<dots> = push_bit 8 (uint h)"
    using bh by (simp add: take_bit_eq_mod push_bit_eq_mult)
  finally have h: "uint (push_bit 8 (ucast h :: 16 word)) = push_bit 8 (uint h)" .
  have "uint (push_bit 8 (ucast h :: 16 word) OR ucast l) = concat_bit 8 (uint l) (uint h)"
    by (simp add: uint_or l h concat_bit_def or.commute)
  also have "\<dots> = uint l + 256 * uint h"
    using bl by (simp add: concat_bit_eq push_bit_eq_mult take_bit_eq_mod)
  finally have "uint (push_bit 8 (ucast h :: 16 word) OR ucast l) = uint l + 256 * uint h" .
  then show ?thesis
    unfolding uint_nat by linarith
qed

lemma low_nibble_of_sum:
  assumes "(k::nat) < 16"
  shows "(16 + k) mod 16 = k" and "(32 + k) mod 16 = k"
  using assms by presburger+

lemma cf_pci:
  assumes "sn < 16"
  shows "pci_type (0x20 OR of_nat sn) = 2" and "unat (pci_low (0x20 OR of_nat sn)) = sn"
proof -
  have u: "unat (0x20 OR of_nat sn :: byte) = 32 + sn"
    using assms by (rule cf_pci_unat)
  have "unat (pci_type (0x20 OR of_nat sn)) = unat (2 :: byte)"
    using assms by (simp add: unat_pci_type u)
  then show "pci_type (0x20 OR of_nat sn) = 2"
    by (simp only: word_unat_eq_iff)
  have "(32 + sn) mod 16 = sn"
    using assms by (rule low_nibble_of_sum)
  then show "unat (pci_low (0x20 OR of_nat sn)) = sn"
    by (simp add: unat_low_nibble u)
qed

lemma ff_bytes:
  assumes "n < 4096"
  shows "unat (ucast (drop_bit 8 (of_nat n :: 16 word)) :: byte) = n div 256"
    and "unat (ucast (of_nat n :: 16 word) :: byte) = n mod 256"
proof -
  have n: "unat (of_nat n :: 16 word) = n"
    using assms by (simp add: unat_of_nat)
  have "n div 256 < 16"
    using assms by simp
  then show "unat (ucast (drop_bit 8 (of_nat n :: 16 word)) :: byte) = n div 256"
    by (simp add: unsigned_ucast_eq unat_drop_bit_eq n take_bit_eq_mod drop_bit_eq_div unat_div)
  show "unat (ucast (of_nat n :: 16 word) :: byte) = n mod 256"
    by (simp add: unsigned_ucast_eq n take_bit_eq_mod)
qed

lemma ff_pci:
  assumes "n < 4096"
  shows "pci_type (0x10 OR ucast (drop_bit 8 (of_nat n :: 16 word))) = 1"
    and "unat (pci_low (0x10 OR ucast (drop_bit 8 (of_nat n :: 16 word)))) = n div 256"
proof -
  let ?hi = "ucast (drop_bit 8 (of_nat n :: 16 word)) :: byte"
  have k: "n div 256 < 16"
    using assms by simp
  have "unat ?hi = unat (of_nat (n div 256) :: byte)"
    using k by (simp add: ff_bytes(1) [OF assms] unat_of_nat)
  then have "?hi = of_nat (n div 256)"
    by (simp only: word_unat_eq_iff)
  then have u: "unat (0x10 OR ?hi) = 16 + n div 256"
    using ff_pci_unat [OF k] by simp
  have "unat (pci_type (0x10 OR ?hi)) = unat (1 :: byte)"
    using k by (simp add: unat_pci_type u)
  then show "pci_type (0x10 OR ?hi) = 1"
    by (simp only: word_unat_eq_iff)
  have "(16 + n div 256) mod 16 = n div 256"
    using k by (rule low_nibble_of_sum)
  then show "unat (pci_low (0x10 OR ?hi)) = n div 256"
    by (simp add: unat_low_nibble u)
qed

subsection \<open>Receiving what the transmitter sends\<close>

lemma receive_first_frame:
  assumes "length msg < 4096"
  shows "isotp_receive bs st (first_frame msg) =
           (Receiving \<lparr>expected_length = length msg, received = take 6 msg, next_seq = 1\<rparr>,
            Rx_Send_FC [0x30, bs, 0x00])"
proof -
  have "unat (pci_low (0x10 OR ucast (drop_bit 8 (of_nat (length msg) :: 16 word)))) * 256
          + unat (ucast (of_nat (length msg) :: 16 word) :: byte) = length msg"
    by (simp add: ff_pci(2) [OF assms] ff_bytes(2) [OF assms])
  then show ?thesis
    by (simp add: isotp_receive_def first_frame_def Let_def ff_pci(1) [OF assms]
        ff_length_decode)
qed

lemma receive_single_frame:
  assumes "length msg \<le> 7"
  shows "isotp_receive bs st (single_frame msg) = (Idle, Rx_Message msg)"
proof -
  have u: "unat (of_nat (length msg) :: byte) = length msg"
    using assms by (simp add: unat_of_nat)
  have "unat (pci_type (of_nat (length msg))) = unat (0 :: byte)"
    using assms by (simp add: unat_pci_type u)
  then have t: "pci_type (of_nat (length msg)) = 0"
    by (simp only: word_unat_eq_iff)
  have "unat (pci_low (of_nat (length msg))) = length msg"
    using assms by (simp add: unat_low_nibble u)
  then show ?thesis
    by (simp add: isotp_receive_def single_frame_def Let_def t)
qed

lemma receive_consecutive_frame:
  assumes "sn < 16"
  shows "isotp_receive bs (Receiving ctx) ((0x20 OR of_nat sn) # data) =
           (if sn \<noteq> next_seq ctx then (Idle, Rx_Error IsoTpSequenceError)
            else if expected_length ctx \<le> length (received ctx @ data)
            then (Idle, Rx_Message (take (expected_length ctx) (received ctx @ data)))
            else (Receiving (ctx\<lparr>received := received ctx @ data,
                                  next_seq := (next_seq ctx + 1) mod 16\<rparr>), Rx_Continue))"
  by (simp add: isotp_receive_def Let_def cf_pci [OF assms])

lemma feed_Cons:
  assumes "isotp_receive bs st fr = (st', ev)" and "isotp_feed bs st' frs = (st'', evs)"
  shows "isotp_feed bs st (fr # frs) = (st'', ev # evs)"
  using assms by simp

lemma consecutive_frames_unfold:
  assumes "data \<noteq> []"
  shows "consecutive_frames sn data =
           ((0x20 OR of_nat sn) # take 7 data) # consecutive_frames ((sn + 1) mod 16) (drop 7 data)"
  using assms by (cases data) (simp_all del: take_Suc_Cons drop_Suc_Cons)

lemma feed_consecutive_frames:
  assumes "sn < 16" and "data \<noteq> []" and "length buf + length data = n"
  shows "isotp_feed bs (Receiving \<lparr>expected_length = n, received = buf, next_seq = sn\<rparr>)
           (consecutive_frames sn data) =
         (Idle, replicate (length (consecutive_frames sn data) - 1) Rx_Continue
                  @ [Rx_Message (buf @ data)])"
  using assms
proof (induction sn data arbitrary: buf rule: consecutive_frames.induct)
  case (1 sn)
  then show ?case by simp
next
  case (2 sn b bs')
  define data where "data = b # bs'"
  define sn' where "sn' = (sn + 1) mod 16"
  define rest where "rest = drop 7 data"
  define buf' where "buf' = buf @ take 7 data"
  have data: "data \<noteq> []"
    by (simp add: data_def)
  have total: "length buf + length data = n"
    using "2.prems"(3) by (simp add: data_def)
  have unfold: "consecutive_frames sn data =
                  ((0x20 OR of_nat sn) # take 7 data) # consecutive_frames sn' rest"
    unfolding sn'_def rest_def using data by (rule consecutive_frames_unfold)
  have join: "buf' @ rest = buf @ data"
    by (simp add: buf'_def rest_def)
  show ?case
  proof (cases "length data \<le> 7")
    case True
    then have "rest = []" and "take 7 data = data"
      by (simp_all add: rest_def)
    then have "consecutive_frames sn data = [(0x20 OR of_nat sn) # data]"
      using unfold by simp
    moreover have "isotp_receive bs (Receiving \<lparr>expected_length = n, received = buf, next_seq = sn\<rparr>)
                     ((0x20 OR of_nat sn) # data) = (Idle, Rx_Message (buf @ data))"
      using total by (simp add: receive_consecutive_frame [OF "2.prems"(1)])
    ultimately show ?thesis
      by (simp add: data_def [symmetric])
  next
    case False
    have sn': "sn' < 16"
      by (simp add: sn'_def)
    have rest: "rest \<noteq> []"
      using False by (simp add: rest_def)
    have len: "length buf' + length rest = n"
      using total False by (simp add: buf'_def rest_def)
    have more: "\<not> n \<le> length buf + length (take 7 data)"
      using total False by simp
    have ih: "isotp_feed bs (Receiving \<lparr>expected_length = n, received = buf', next_seq = sn'\<rparr>)
                (consecutive_frames sn' rest) =
              (Idle, replicate (length (consecutive_frames sn' rest) - 1) Rx_Continue
                       @ [Rx_Message (buf' @ rest)])"
      using "2.IH" [of buf'] sn' rest len
      by (simp only: data_def [symmetric] sn'_def [symmetric] rest_def [symmetric]) simp
    have step: "isotp_receive bs (Receiving \<lparr>expected_length = n, received = buf, next_seq = sn\<rparr>)
                  ((0x20 OR of_nat sn) # take 7 data) =
                (Receiving \<lparr>expected_length = n, received = buf', next_seq = sn'\<rparr>, Rx_Continue)"
      using more by (simp add: receive_consecutive_frame [OF "2.prems"(1)] buf'_def sn'_def)
    have ne: "consecutive_frames sn' rest \<noteq> []"
      using rest by (simp add: consecutive_frames_unfold [OF rest])
    then have cnt: "replicate (length (consecutive_frames sn' rest)) Rx_Continue =
                    Rx_Continue # replicate (length (consecutive_frames sn' rest) - 1) Rx_Continue"
      by (cases "consecutive_frames sn' rest") simp_all
    have "isotp_feed bs (Receiving \<lparr>expected_length = n, received = buf, next_seq = sn\<rparr>)
            (consecutive_frames sn data) =
          (Idle, Rx_Continue # (replicate (length (consecutive_frames sn' rest) - 1) Rx_Continue
                                  @ [Rx_Message (buf' @ rest)]))"
      unfolding unfold by (rule feed_Cons [OF step ih])
    then show ?thesis
      by (simp add: unfold cnt join data_def [symmetric])
  qed
qed

text \<open>
  Claim C4. For every message the transmitter accepts (at most 4095 bytes), feeding the
  frames it produces, in order, to the reassembler in its Idle state yields exactly one
  message, the original bytes, no error, and leaves the reassembler Idle.
\<close>

theorem isotp_round_trip:
  assumes "isotp_transmit msg = Inr frames"
  shows "fst (isotp_feed bs Idle frames) = Idle
       \<and> messages_of (snd (isotp_feed bs Idle frames)) = [msg]
       \<and> errors_of (snd (isotp_feed bs Idle frames)) = []"
proof (cases "length msg \<le> 7")
  case True
  then have "frames = [single_frame msg]"
    using assms by (simp add: isotp_transmit_def)
  then show ?thesis
    using True by (simp add: receive_single_frame)
next
  case False
  then have len: "length msg < 4096" and frames: "frames = first_frame msg # consecutive_frames 1 (drop 6 msg)"
    using assms by (auto simp: isotp_transmit_def split: if_splits)
  have rest: "drop 6 msg \<noteq> []"
    using False by simp
  have total: "length (take 6 msg) + length (drop 6 msg) = length msg"
    by simp
  have cfs: "isotp_feed bs (Receiving \<lparr>expected_length = length msg, received = take 6 msg, next_seq = 1\<rparr>)
               (consecutive_frames 1 (drop 6 msg)) =
             (Idle, replicate (length (consecutive_frames 1 (drop 6 msg)) - 1) Rx_Continue
                      @ [Rx_Message (take 6 msg @ drop 6 msg)])"
    by (rule feed_consecutive_frames [OF _ rest total]) simp
  have "isotp_feed bs Idle frames =
          (Idle, Rx_Send_FC [0x30, bs, 0x00]
                   # (replicate (length (consecutive_frames 1 (drop 6 msg)) - 1) Rx_Continue
                        @ [Rx_Message (take 6 msg @ drop 6 msg)]))"
    unfolding frames by (rule feed_Cons [OF receive_first_frame [OF len] cfs])
  moreover have "messages_of (replicate k Rx_Continue @ evs) = messages_of evs"
    and "errors_of (replicate k Rx_Continue @ evs) = errors_of evs" for k evs
    by (induction k) simp_all
  ultimately show ?thesis
    by simp
qed

theorem isotp_round_trip_witness:
  "isotp_transmit [0x49, 0x02, 0x01, 0x57, 0x30, 0x4C, 0x31, 0x5A, 0x5A, 0x5A,
                   0x35, 0x34, 0x34, 0x32, 0x33, 0x35, 0x36, 0x37, 0x38, 0x39] =
     Inr [[0x10, 0x14, 0x49, 0x02, 0x01, 0x57, 0x30, 0x4C],
          [0x21, 0x31, 0x5A, 0x5A, 0x5A, 0x35, 0x34, 0x34],
          [0x22, 0x32, 0x33, 0x35, 0x36, 0x37, 0x38, 0x39]]
   \<and> messages_of (snd (isotp_feed 0 Idle
         [[0x10, 0x14, 0x49, 0x02, 0x01, 0x57, 0x30, 0x4C],
          [0x21, 0x31, 0x5A, 0x5A, 0x5A, 0x35, 0x34, 0x34],
          [0x22, 0x32, 0x33, 0x35, 0x36, 0x37, 0x38, 0x39]])) =
       [[0x49, 0x02, 0x01, 0x57, 0x30, 0x4C, 0x31, 0x5A, 0x5A, 0x5A,
         0x35, 0x34, 0x34, 0x32, 0x33, 0x35, 0x36, 0x37, 0x38, 0x39]]"
proof -
  have sent: "isotp_transmit [0x49, 0x02, 0x01, 0x57, 0x30, 0x4C, 0x31, 0x5A, 0x5A, 0x5A,
                   0x35, 0x34, 0x34, 0x32, 0x33, 0x35, 0x36, 0x37, 0x38, 0x39] =
     Inr [[0x10, 0x14, 0x49, 0x02, 0x01, 0x57, 0x30, 0x4C],
          [0x21, 0x31, 0x5A, 0x5A, 0x5A, 0x35, 0x34, 0x34],
          [0x22, 0x32, 0x33, 0x35, 0x36, 0x37, 0x38, 0x39]]"
    by (simp add: isotp_transmit_def first_frame_def Let_def)
  show ?thesis
    using sent isotp_round_trip [OF sent, of 0] by simp
qed

subsection \<open>Sequence numbers\<close>

lemma feed_Cons_fst:
  "fst (isotp_feed bs st (fr # frs)) = fst (isotp_feed bs (fst (isotp_receive bs st fr)) frs)"
  by (simp add: case_prod_unfold)

lemma feed_Cons_snd:
  "snd (isotp_feed bs st (fr # frs)) =
     snd (isotp_receive bs st fr) # snd (isotp_feed bs (fst (isotp_receive bs st fr)) frs)"
  by (simp add: case_prod_unfold)

lemma feed_append:
  "isotp_feed bs st (frs @ frs') =
     (fst (isotp_feed bs (fst (isotp_feed bs st frs)) frs'),
      snd (isotp_feed bs st frs) @ snd (isotp_feed bs (fst (isotp_feed bs st frs)) frs'))"
  by (induction frs arbitrary: st) (simp_all add: case_prod_unfold)

lemma errors_of_append: "errors_of (evs @ evs') = errors_of evs @ errors_of evs'"
  by (induction evs rule: errors_of.induct) simp_all

lemma receive_cf_idle:
  "is_consecutive_frame fr \<Longrightarrow> isotp_receive bs Idle fr = (Idle, Rx_Error IsoTpSequenceError)"
  by (cases fr) (simp_all add: is_consecutive_frame_def isotp_receive_def)

lemma receive_cf_receiving:
  assumes "is_consecutive_frame fr"
  shows "isotp_receive bs (Receiving ctx) fr =
           (if frame_seq fr \<noteq> next_seq ctx then (Idle, Rx_Error IsoTpSequenceError)
            else if expected_length ctx \<le> length (received ctx @ tl fr)
            then (Idle, Rx_Message (take (expected_length ctx) (received ctx @ tl fr)))
            else (Receiving (ctx\<lparr>received := received ctx @ tl fr,
                                  next_seq := (next_seq ctx + 1) mod 16\<rparr>), Rx_Continue))"
  using assms
  by (cases fr) (simp_all add: is_consecutive_frame_def isotp_receive_def frame_seq_def Let_def)

lemma receive_ff:
  assumes "is_first_frame fr" and "snd (isotp_receive bs st fr) \<noteq> Rx_Error IsoTpMalformedFrame"
  shows "\<exists>ctx. fst (isotp_receive bs st fr) = Receiving ctx \<and> next_seq ctx = 1"
  using assms
  by (cases fr) (auto simp: is_first_frame_def isotp_receive_def Let_def split: list.splits)

lemma feed_cfs_idle:
  assumes "\<forall>f\<in>set cfs. is_consecutive_frame f" and "errors_of (snd (isotp_feed bs Idle cfs)) = []"
  shows "cfs = []"
proof (cases cfs)
  case Nil
  then show ?thesis .
next
  case (Cons f fs)
  then have "is_consecutive_frame f"
    using assms(1) by simp
  then have "snd (isotp_receive bs Idle f) = Rx_Error IsoTpSequenceError"
    by (simp add: receive_cf_idle)
  then show ?thesis
    using assms(2) unfolding Cons feed_Cons_snd by simp
qed

lemma upt_seq_shift:
  "map (\<lambda>i. (n + i) mod 16) [0..<Suc k] = n mod 16 # map (\<lambda>i. ((n + 1) mod 16 + i) mod 16) [0..<k]"
proof -
  have "[0..<Suc k] = 0 # map Suc [0..<k]"
    by (simp add: upt_conv_Cons map_Suc_upt del: upt_Suc)
  moreover have "(n + Suc i) mod 16 = ((n + 1) mod 16 + i) mod 16" for i
    by (simp add: mod_add_left_eq)
  ultimately show ?thesis
    by (simp add: comp_def del: upt_Suc)
qed

lemma feed_cfs_receiving:
  assumes "\<forall>f\<in>set cfs. is_consecutive_frame f"
    and "errors_of (snd (isotp_feed bs (Receiving ctx) cfs)) = []"
    and "next_seq ctx < 16"
  shows "map frame_seq cfs = map (\<lambda>i. (next_seq ctx + i) mod 16) [0..<length cfs]
       \<and> (\<forall>ctx'. fst (isotp_feed bs (Receiving ctx) cfs) = Receiving ctx'
            \<longrightarrow> next_seq ctx' = (next_seq ctx + length cfs) mod 16)"
  using assms
proof (induction cfs arbitrary: ctx)
  case Nil
  then show ?case by simp
next
  case (Cons f fs)
  have cf: "is_consecutive_frame f" and rest: "\<forall>f\<in>set fs. is_consecutive_frame f"
    using Cons.prems(1) by simp_all
  have noerr: "errors_of (snd (isotp_receive bs (Receiving ctx) f)
                 # snd (isotp_feed bs (fst (isotp_receive bs (Receiving ctx) f)) fs)) = []"
    using Cons.prems(2) by (simp only: feed_Cons_snd)
  have seq: "frame_seq f = next_seq ctx"
    using noerr by (auto simp: receive_cf_receiving [OF cf] split: if_splits)
  show ?case
  proof (cases "expected_length ctx \<le> length (received ctx @ tl f)")
    case True
    then have step: "isotp_receive bs (Receiving ctx) f =
                       (Idle, Rx_Message (take (expected_length ctx) (received ctx @ tl f)))"
      using seq by (simp add: receive_cf_receiving [OF cf])
    have "fs = []"
      using noerr by (intro feed_cfs_idle [OF rest, of bs]) (simp add: step)
    then show ?thesis
      using seq Cons.prems(3) by (simp add: feed_Cons_fst step)
  next
    case False
    define ctx' where "ctx' = ctx\<lparr>received := received ctx @ tl f, next_seq := (next_seq ctx + 1) mod 16\<rparr>"
    have step: "isotp_receive bs (Receiving ctx) f = (Receiving ctx', Rx_Continue)"
      using seq False by (simp add: receive_cf_receiving [OF cf] ctx'_def)
    have n': "next_seq ctx' = (next_seq ctx + 1) mod 16"
      by (simp add: ctx'_def)
    have "errors_of (snd (isotp_feed bs (Receiving ctx') fs)) = []"
      using noerr by (simp add: step)
    then have ih: "map frame_seq fs = map (\<lambda>i. (next_seq ctx' + i) mod 16) [0..<length fs]
                 \<and> (\<forall>c. fst (isotp_feed bs (Receiving ctx') fs) = Receiving c
                      \<longrightarrow> next_seq c = (next_seq ctx' + length fs) mod 16)"
      by (intro Cons.IH [OF rest]) (simp_all add: n')
    have "map frame_seq (f # fs) = map (\<lambda>i. (next_seq ctx + i) mod 16) [0..<length (f # fs)]"
      using ih seq Cons.prems(3) by (simp add: upt_seq_shift n' del: upt_Suc)
    moreover have "next_seq c = (next_seq ctx + length (f # fs)) mod 16"
      if "fst (isotp_feed bs (Receiving ctx) (f # fs)) = Receiving c" for c
    proof -
      have "fst (isotp_feed bs (Receiving ctx') fs) = Receiving c"
        using that unfolding feed_Cons_fst step by simp
      then have "next_seq c = (next_seq ctx' + length fs) mod 16"
        using ih by simp
      then show ?thesis
        by (simp add: n' mod_add_left_eq)
    qed
    ultimately show ?thesis by blast
  qed
qed

text \<open>The transmitter numbers its consecutive frames as the reassembler expects them.\<close>

lemma consecutive_frames_seq:
  assumes "sn < 16"
  shows "map frame_seq (consecutive_frames sn data) =
           map (\<lambda>i. (sn + i) mod 16) [0..<length (consecutive_frames sn data)]"
  using assms
proof (induction sn data rule: consecutive_frames.induct)
  case (1 sn)
  then show ?case by simp
next
  case (2 sn b bs)
  have "(sn + 1) mod 16 < 16"
    by simp
  then have ih: "map frame_seq (consecutive_frames ((sn + 1) mod 16) (drop 7 (b # bs))) =
      map (\<lambda>i. ((sn + 1) mod 16 + i) mod 16)
        [0..<length (consecutive_frames ((sn + 1) mod 16) (drop 7 (b # bs)))]"
    by (rule "2.IH")
  have hd: "frame_seq ((0x20 OR of_nat sn) # take 7 (b # bs)) = sn"
    using cf_pci(2) [OF "2.prems"] by (simp add: frame_seq_def)
  show ?case
    unfolding consecutive_frames.simps(2) list.map length_Cons upt_seq_shift ih hd
    using "2.prems" by simp
qed

lemma consecutive_frames_wrap:
  "map frame_seq (consecutive_frames 1 (replicate 113 0)) =
     [1, 2, 3, 4, 5, 6, 7, 8, 9, 10, 11, 12, 13, 14, 15, 0, 1]"
  by code_simp

text \<open>
  Claim C7. In a reception that starts with a first frame and goes on with consecutive
  frames without any error, the sequence numbers of the consecutive frames are
  1, 2, ..., 15, 0, 1, ... in order. A consecutive frame that comes next with any other
  number adds exactly one event, the error IsoTpSequenceError, which is then the only
  error of the reception, and leaves the reassembler Idle.
\<close>

theorem isotp_sequence_numbers:
  assumes "is_first_frame ff" and "\<forall>f\<in>set cfs. is_consecutive_frame f"
    and "errors_of (snd (isotp_feed bs st (ff # cfs))) = []"
  shows "map frame_seq cfs = map (\<lambda>i. (i + 1) mod 16) [0..<length cfs]
       \<and> (\<forall>cf. is_consecutive_frame cf \<and> frame_seq cf \<noteq> (length cfs + 1) mod 16 \<longrightarrow>
             isotp_feed bs st (ff # cfs @ [cf]) =
               (Idle, snd (isotp_feed bs st (ff # cfs)) @ [Rx_Error IsoTpSequenceError])
             \<and> errors_of (snd (isotp_feed bs st (ff # cfs @ [cf]))) = [IsoTpSequenceError])"
proof -
  have noerr: "errors_of (snd (isotp_receive bs st ff)
                 # snd (isotp_feed bs (fst (isotp_receive bs st ff)) cfs)) = []"
    using assms(3) by (simp only: feed_Cons_snd)
  then have "snd (isotp_receive bs st ff) \<noteq> Rx_Error IsoTpMalformedFrame"
    by auto
  then obtain ctx where ctx: "fst (isotp_receive bs st ff) = Receiving ctx" and first: "next_seq ctx = 1"
    using receive_ff [OF assms(1)] by blast
  have rest: "errors_of (snd (isotp_feed bs (Receiving ctx) cfs)) = []"
    using noerr ctx by (cases "snd (isotp_receive bs st ff)") (simp_all split: if_splits)
  have run: "map frame_seq cfs = map (\<lambda>i. (next_seq ctx + i) mod 16) [0..<length cfs]
           \<and> (\<forall>c. fst (isotp_feed bs (Receiving ctx) cfs) = Receiving c
                \<longrightarrow> next_seq c = (next_seq ctx + length cfs) mod 16)"
    by (rule feed_cfs_receiving [OF assms(2) rest]) (simp add: first)
  have seqs: "map frame_seq cfs = map (\<lambda>i. (i + 1) mod 16) [0..<length cfs]"
    using run by (simp add: first)
  have gap: "isotp_feed bs st (ff # cfs @ [cf]) =
               (Idle, snd (isotp_feed bs st (ff # cfs)) @ [Rx_Error IsoTpSequenceError])
             \<and> errors_of (snd (isotp_feed bs st (ff # cfs @ [cf]))) = [IsoTpSequenceError]"
    if cf: "is_consecutive_frame cf" and differs: "frame_seq cf \<noteq> (length cfs + 1) mod 16" for cf
  proof -
    define final where "final = fst (isotp_feed bs st (ff # cfs))"
    have final: "final = fst (isotp_feed bs (Receiving ctx) cfs)"
      unfolding final_def feed_Cons_fst ctx ..
    have last: "isotp_receive bs final cf = (Idle, Rx_Error IsoTpSequenceError)"
    proof (cases final)
      case Idle
      then show ?thesis
        using cf by (simp add: receive_cf_idle)
    next
      case (Receiving c)
      then have "next_seq c = (1 + length cfs) mod 16"
        using run final by (simp add: first)
      then show ?thesis
        using differs Receiving by (simp add: receive_cf_receiving [OF cf])
    qed
    have "isotp_feed bs st ((ff # cfs) @ [cf]) =
            (Idle, snd (isotp_feed bs st (ff # cfs)) @ [Rx_Error IsoTpSequenceError])"
      unfolding feed_append [of bs st "ff # cfs" "[cf]"] final_def [symmetric]
      by (simp add: last)
    then have whole: "isotp_feed bs st (ff # cfs @ [cf]) =
            (Idle, snd (isotp_feed bs st (ff # cfs)) @ [Rx_Error IsoTpSequenceError])"
      by (simp only: append_Cons)
    show ?thesis
      unfolding whole using assms(3) by (simp add: errors_of_append)
  qed
  show ?thesis
    using seqs gap by blast
qed

theorem isotp_sequence_numbers_witness:
  "is_first_frame [0x10, 0x14, 0x49, 0x02, 0x01, 0x57, 0x30, 0x4C]
   \<and> is_consecutive_frame [0x21, 0x31, 0x5A, 0x5A, 0x5A, 0x35, 0x34, 0x34]
   \<and> errors_of (snd (isotp_feed 0 Idle
         [[0x10, 0x14, 0x49, 0x02, 0x01, 0x57, 0x30, 0x4C],
          [0x21, 0x31, 0x5A, 0x5A, 0x5A, 0x35, 0x34, 0x34]])) = []
   \<and> map frame_seq [[0x21, 0x31, 0x5A, 0x5A, 0x5A, 0x35, 0x34, 0x34]] = [1]
   \<and> isotp_feed 0 Idle
         [[0x10, 0x14, 0x49, 0x02, 0x01, 0x57, 0x30, 0x4C],
          [0x21, 0x31, 0x5A, 0x5A, 0x5A, 0x35, 0x34, 0x34],
          [0x23, 0x32, 0x33, 0x35, 0x36, 0x37, 0x38, 0x39]] =
       (Idle, [Rx_Send_FC [0x30, 0, 0], Rx_Continue, Rx_Error IsoTpSequenceError])"
proof -
  let ?ff = "[0x10, 0x14, 0x49, 0x02, 0x01, 0x57, 0x30, 0x4C] :: frame"
  let ?cf1 = "[0x21, 0x31, 0x5A, 0x5A, 0x5A, 0x35, 0x34, 0x34] :: frame"
  let ?cf3 = "[0x23, 0x32, 0x33, 0x35, 0x36, 0x37, 0x38, 0x39] :: frame"
  have h1: "is_first_frame ?ff"
    by (simp add: is_first_frame_def pci_type_def)
  have c1: "is_consecutive_frame ?cf1"
    by (simp add: is_consecutive_frame_def pci_type_def)
  have h2: "\<forall>f\<in>set [?cf1]. is_consecutive_frame f"
    using c1 by simp
  have fed: "isotp_feed 0 Idle [?ff, ?cf1] =
      (Receiving \<lparr>expected_length = 20,
         received = [0x49, 0x02, 0x01, 0x57, 0x30, 0x4C, 0x31, 0x5A, 0x5A, 0x5A, 0x35, 0x34, 0x34],
         next_seq = 2\<rparr>,
       [Rx_Send_FC [0x30, 0, 0], Rx_Continue])"
    by (simp add: isotp_receive_def pci_type_def pci_low_def Let_def)
  have h3: "errors_of (snd (isotp_feed 0 Idle (?ff # [?cf1]))) = []"
    by (simp only: fed) simp
  have c3: "is_consecutive_frame ?cf3 \<and> frame_seq ?cf3 \<noteq> (length [?cf1] + 1) mod 16"
    by (simp add: is_consecutive_frame_def frame_seq_def pci_type_def pci_low_def)
  have "map frame_seq [?cf1] = map (\<lambda>i. (i + 1) mod 16) [0..<length [?cf1]]
      \<and> isotp_feed 0 Idle (?ff # [?cf1] @ [?cf3]) =
          (Idle, snd (isotp_feed 0 Idle (?ff # [?cf1])) @ [Rx_Error IsoTpSequenceError])"
    using isotp_sequence_numbers [OF h1 h2 h3] c3 by blast
  then have "map frame_seq [?cf1] = [1]
      \<and> isotp_feed 0 Idle [?ff, ?cf1, ?cf3] =
          (Idle, [Rx_Send_FC [0x30, 0, 0], Rx_Continue, Rx_Error IsoTpSequenceError])"
    by (simp only: fed) simp
  then show ?thesis
    using h1 c1 h3 by simp
qed

end
